theory Spec2Isabelle
  imports Complex_Main "HOL-Library.Word" "HOL-Library.List_Lexorder" "HOL-Library.Char_ord"
begin

section \<open>Value model (quokka/engine/types.h)\<close>

text \<open>
  \<^verbatim>\<open>using lua_integer = int;\<close> A C++ \<open>int\<close> is taken at its usual width of 32 bits,
  read as two's complement through \<open>sint\<close>.
\<close>

type_synonym lua_integer = "32 word"

text \<open>
  \<^verbatim>\<open>using lua_number = double;\<close> A double is represented by what its comparison
  operators see: the number it denotes (both zeros denote 0 and compare equal), one of the
  two infinities, or NaN. Every double denotes a real number, so a statement over all
  \<open>Finite x\<close> covers all finite doubles.
\<close>

datatype lua_number = Finite real | PosInf | NegInf | NaN

text \<open>The built-in comparisons of C++ on doubles: every comparison with NaN is false.\<close>

fun num_eq :: "lua_number \<Rightarrow> lua_number \<Rightarrow> bool" where
  "num_eq NaN _ = False"
| "num_eq _ NaN = False"
| "num_eq a b = (a = b)"



text \<open>
  The implicit conversion of an \<open>int\<close> operand to \<open>double\<close>; it is exact, a double
  holding every 32-bit integer.
\<close>

definition int_to_number :: "lua_integer \<Rightarrow> lua_number" where
  "int_to_number i = Finite (real_of_int (sint i))"

text \<open>
  Modelled from the spec: \<open>lua_string\<close> is \<open>small_string<16>\<close> and \<open>object_view\<close> is
  \<open>small_vector_refcount_view<lua_object>\<close>, and the headers that declare the two classes
  (\<open>smallstring.h\<close>, \<open>view.h\<close>) are missing. A string is its characters, compared as
  character sequences (``strings compare lexicographically''); an object view is the index
  of the slot it refers to (``index-based handles standing in for pointers''), and two
  views are equal when they refer to the same slot (``objects compare by identity'').
  An opaque \<open>void *\<close> is the address it holds.
\<close>

type_synonym lua_string = string
type_synonym object_view = nat

text \<open>
  \<^verbatim>\<open>using lua_value = std::variant<lua_nil, bool, lua_number, lua_integer, lua_string,
  object_view, void *>;\<close>
  The discriminators are \<open>is<T>(v)\<close>, the selectors \<open>std::get<T>(v)\<close>: a selector applied
  to another alternative is unspecified, where \<open>std::get\<close> throws.
\<close>

datatype lua_value =
    is_nil: VNil
  | is_bool: VBool (get_bool: bool)
  | is_number: VNumber (get_number: lua_number)
  | is_integer: VInteger (get_integer: lua_integer)
  | is_string: VString (get_string: lua_string)
  | is_object: VObject (get_object: object_view)
  | is_pointer: VPointer (get_pointer: nat)

text \<open>\<open>v.index()\<close>: the position of the held alternative in the variant's type list.\<close>

fun index :: "lua_value \<Rightarrow> nat" where
  "index VNil = 0"
| "index (VBool _) = 1"
| "index (VNumber _) = 2"
| "index (VInteger _) = 3"
| "index (VString _) = 4"
| "index (VObject _) = 5"
| "index (VPointer _) = 6"

definition is_numeric :: "lua_value \<Rightarrow> bool" where
  "is_numeric v = (is_integer v \<or> is_number v)"

definition falsey :: "lua_value \<Rightarrow> bool" where
  "falsey val = (is_nil val \<or> (is_bool val \<and> \<not> get_bool val))"

text \<open>
  \<open>operator==\<close>. \<open>std::visit\<close> picks the \<open>lua_integer\<close> lambda for an integer and the
  \<open>lua_number\<close> lambda for a float (a non-template overload wins over the generic one),
  and the generic lambda for every other alternative. In both numeric lambdas the
  conditional expression has type \<open>double\<close>, so the comparison is one of doubles.
\<close>

definition numeric_operand :: "lua_value \<Rightarrow> lua_number" where
  "numeric_operand b = (if is_integer b then int_to_number (get_integer b) else get_number b)"

definition lua_eq :: "lua_value \<Rightarrow> lua_value \<Rightarrow> bool" where
  "lua_eq a b =
     (if index a = index b \<or> (is_numeric a \<and> is_numeric b) then
        (case a of
           VInteger av \<Rightarrow> num_eq (int_to_number av) (numeric_operand b)
         | VNumber av \<Rightarrow> num_eq av (numeric_operand b)
         | VNil \<Rightarrow> True
         | VBool av \<Rightarrow> av = get_bool b
         | VString av \<Rightarrow> av = get_string b
         | VObject av \<Rightarrow> av = get_object b
         | VPointer av \<Rightarrow> av = get_pointer b)
      else False)"





section \<open>Tables\<close>

text \<open>
  \<^verbatim>\<open>struct lua_table { struct node { lua_value key; lua_value value; }; small_vector<node, 8> entries; }\<close>
\<close>

record node =
  node_key :: lua_value
  node_value :: lua_value

record lua_table =
  entries :: "node list"

text \<open>
  Modelled from the spec: types.h declares \<open>lua_table::get\<close> and \<open>lua_table::set\<close>, their
  bodies are missing. ``Linear scan for the first entry whose key compares equal'' (under
  \<open>operator==\<close> above); \<open>get\<close> on an absent key yields nil; \<open>set\<close> on an existing key
  overwrites its value and on an absent key appends a new entry.
\<close>

fun get_entries :: "node list \<Rightarrow> lua_value \<Rightarrow> lua_value" where
  "get_entries [] k = VNil"
| "get_entries (n # ns) k = (if lua_eq (node_key n) k then node_value n else get_entries ns k)"

fun set_entries :: "node list \<Rightarrow> lua_value \<Rightarrow> lua_value \<Rightarrow> node list" where
  "set_entries [] k v = [\<lparr>node_key = k, node_value = v\<rparr>]"
| "set_entries (n # ns) k v =
     (if lua_eq (node_key n) k then n\<lparr>node_value := v\<rparr> # ns else n # set_entries ns k v)"

definition table_get :: "lua_table \<Rightarrow> lua_value \<Rightarrow> lua_value" where
  "table_get t k = get_entries (entries t) k"

definition table_set :: "lua_table \<Rightarrow> lua_value \<Rightarrow> lua_value \<Rightarrow> lua_table" where
  "table_set t k v = t\<lparr>entries := set_entries (entries t) k v\<rparr>"

text \<open>No entry of the table has a key that compares equal to \<open>k\<close>.\<close>

definition absent :: "lua_table \<Rightarrow> lua_value \<Rightarrow> bool" where
  "absent t k = list_all (\<lambda>n. \<not> lua_eq (node_key n) k) (entries t)"


section \<open>Object and upvalue heaps (quokka/engine/vm.h)\<close>

text \<open>
  \<open>first_avail_idx\<close> works on a \<open>small_vector<simple_variant<T>, S>\<close>. The class
  \<open>simple_variant\<close> is declared outside the sources; the function uses its test
  \<open>is_assigned()\<close> and \<open>emplace_back()\<close>, which appends a slot that is not assigned yet
  (``we have to call another emplace on the actual variant'').
\<close>

datatype 'a simple_variant = is_assigned: Assigned 'a | Unassigned

text \<open>
  The loop \<^verbatim>\<open>for (size_t i = 0; i < v.size(); i++) if (!v[i].is_assigned()) return i;\<close>
  from index \<open>i\<close> on; \<open>None\<close> when it runs to the end of the vector.
\<close>

function scan_slots :: "'a simple_variant list \<Rightarrow> nat \<Rightarrow> nat option" where
  "scan_slots v i =
     (if i < length v then
        (if \<not> is_assigned (v ! i) then Some i else scan_slots v (Suc i))
      else None)"
  by pat_completeness auto
termination
  by (relation "measure (\<lambda>(v, i). length v - i)") auto

declare scan_slots.simps [simp del]

text \<open>The index returned, and the vector as the call leaves it.\<close>

definition first_avail_idx :: "'a simple_variant list \<Rightarrow> nat \<times> 'a simple_variant list" where
  "first_avail_idx v =
     (case scan_slots v 0 of
        Some i \<Rightarrow> (i, v)
      | None \<Rightarrow> (length v, v @ [Unassigned]))"

text \<open>
  Modelled from the spec: vm.h declares \<open>alloc_object\<close> and \<open>alloc_upval\<close>, their bodies
  and the \<open>refcount\<close> base of \<open>lua_object\<close> and \<open>lua_upval\<close> are missing. A slot carries
  ``an explicit live-reference count'' next to its payload; allocation claims the slot
  \<open>first_avail_idx\<close> finds, for the one reference it returns; ``duplication increments,
  destruction decrements; reaching zero resets the slot's payload to empty/nil and marks
  it reusable''. \<open>alloc_object\<close> and \<open>alloc_upval\<close> are \<open>alloc\<close> on the heap of objects and on
  the heap of upvalues.
\<close>

type_synonym 'p slot = "(nat \<times> 'p) simple_variant"

definition ref_count :: "'p slot \<Rightarrow> nat" where
  "ref_count s = (case s of Unassigned \<Rightarrow> 0 | Assigned (c, _) \<Rightarrow> c)"

definition alloc :: "'p \<Rightarrow> 'p slot list \<Rightarrow> nat \<times> 'p slot list" where
  "alloc p h = (case first_avail_idx h of (i, h') \<Rightarrow> (i, h'[i := Assigned (1, p)]))"

definition retain :: "nat \<Rightarrow> 'p slot list \<Rightarrow> 'p slot list" where
  "retain i h =
     (if i < length h then
        (case h ! i of
           Assigned (c, p) \<Rightarrow> h[i := Assigned (Suc c, p)]
         | Unassigned \<Rightarrow> h)
      else h)"

definition release :: "nat \<Rightarrow> 'p slot list \<Rightarrow> 'p slot list" where
  "release i h =
     (if i < length h then
        (case h ! i of
           Assigned (c, p) \<Rightarrow> if c \<le> 1 then h[i := Unassigned] else h[i := Assigned (c - 1, p)]
         | Unassigned \<Rightarrow> h)
      else h)"

text \<open>The heap's invariant: a slot is assigned exactly when its reference count is not zero.\<close>

definition counted :: "'p slot list \<Rightarrow> bool" where
  "counted h = list_all (\<lambda>s. is_assigned s = (0 < ref_count s)) h"

text \<open>
  A history of a heap: allocations, duplications and destructions of references, run
  from a given heap. \<open>live\<close> counts the assigned slots, \<open>high_water\<close> is the largest
  number of slots assigned at one time in the course of the history.
\<close>

datatype 'p heap_op = Alloc 'p | Retain nat | Release nat

fun step :: "'p heap_op \<Rightarrow> 'p slot list \<Rightarrow> 'p slot list" where
  "step (Alloc p) h = snd (alloc p h)"
| "step (Retain i) h = retain i h"
| "step (Release i) h = release i h"

fun run :: "'p heap_op list \<Rightarrow> 'p slot list \<Rightarrow> 'p slot list" where
  "run [] h = h"
| "run (x # xs) h = run xs (step x h)"

definition live :: "'p slot list \<Rightarrow> nat" where
  "live h = length (filter is_assigned h)"

fun high_water :: "'p heap_op list \<Rightarrow> 'p slot list \<Rightarrow> nat" where
  "high_water [] h = live h"
| "high_water (x # xs) h = max (live h) (high_water xs (step x h))"
section \<open>Facts about the comparisons\<close>

lemma num_eq_refl: "num_eq a a = (a \<noteq> NaN)"
  by (cases a) simp_all

lemma num_eq_sym: "num_eq a b = num_eq b a"
  by (cases a; cases b) auto

lemma num_eq_int_to_number: "num_eq (int_to_number i) (int_to_number j) = (i = j)"
  by (auto simp: int_to_number_def dest: signed_word_eqI)

lemma lua_eq_sym: "lua_eq a b = lua_eq b a"
  by (cases a; cases b)
    (auto simp: lua_eq_def is_numeric_def numeric_operand_def num_eq_sym)

lemma lua_eq_refl: "lua_eq k k = (k \<noteq> VNumber NaN)"
  by (cases k)
    (auto simp: lua_eq_def is_numeric_def numeric_operand_def num_eq_refl int_to_number_def)

lemma lua_eq_one: "lua_eq x (VInteger 1) = lua_eq x (VNumber (Finite 1))"
  by (cases x) (auto simp: lua_eq_def is_numeric_def numeric_operand_def int_to_number_def)

lemma get_entries_absent:
  "list_all (\<lambda>n. \<not> lua_eq (node_key n) k) es \<Longrightarrow> get_entries es k = VNil"
  by (induction es) auto

lemma set_entries_absent:
  "list_all (\<lambda>n. \<not> lua_eq (node_key n) k) es \<Longrightarrow>
   set_entries es k v = es @ [\<lparr>node_key = k, node_value = v\<rparr>]"
  by (induction es) auto

lemma set_entries_keys:
  "\<not> list_all (\<lambda>n. \<not> lua_eq (node_key n) k) es \<Longrightarrow>
   map node_key (set_entries es k v) = map node_key es"
  by (induction es) auto

lemma get_set_entries:
  assumes "lua_eq k k" and "\<And>x. lua_eq x k = lua_eq x k'"
  shows "get_entries (set_entries es k v) k' = v"
  using assms by (induction es) auto

section \<open>Facts about the heaps\<close>

lemma scan_slots_Some:
  "scan_slots v i = Some j \<Longrightarrow>
   i \<le> j \<and> j < length v \<and> \<not> is_assigned (v ! j) \<and> (\<forall>k. i \<le> k \<and> k < j \<longrightarrow> is_assigned (v ! k))"
proof (induction v i rule: scan_slots.induct)
  case (1 v i)
  show ?case
  proof (cases "i < length v \<and> is_assigned (v ! i)")
    case True
    with "1.prems" have "scan_slots v (Suc i) = Some j"
      by (simp add: scan_slots.simps [of v i])
    with "1.IH" True have ih: "Suc i \<le> j \<and> j < length v \<and> \<not> is_assigned (v ! j)
        \<and> (\<forall>k. Suc i \<le> k \<and> k < j \<longrightarrow> is_assigned (v ! k))"
      by simp
    have "is_assigned (v ! k)" if "i \<le> k" "k < j" for k
    proof (cases "k = i")
      case True
      with \<open>i < length v \<and> is_assigned (v ! i)\<close> show ?thesis by simp
    next
      case False
      with that ih show ?thesis by simp
    qed
    with ih show ?thesis by auto
  next
    case False
    with "1.prems" show ?thesis
      by (auto simp: scan_slots.simps [of v i] split: if_splits)
  qed
qed

lemma scan_slots_None:
  "scan_slots v i = None \<Longrightarrow> i \<le> k \<Longrightarrow> k < length v \<Longrightarrow> is_assigned (v ! k)"
proof (induction v i rule: scan_slots.induct)
  case (1 v i)
  from "1.prems" have a: "i < length v" by simp
  with "1.prems"(1) have b: "is_assigned (v ! i)" "scan_slots v (Suc i) = None"
    by (auto simp: scan_slots.simps [of v i] split: if_splits)
  show ?case
  proof (cases "k = i")
    case True
    with b show ?thesis by simp
  next
    case False
    with "1.prems" have "Suc i \<le> k" by simp
    with "1.IH" a b "1.prems" show ?thesis by simp
  qed
qed

lemma first_avail_idx_free:
  assumes "\<exists>i<length v. \<not> is_assigned (v ! i)" and "first_avail_idx v = (j, v')"
  shows "v' = v \<and> j < length v \<and> \<not> is_assigned (v ! j) \<and> (\<forall>k<j. is_assigned (v ! k))"
proof (cases "scan_slots v 0")
  case None
  with assms(1) scan_slots_None [of v 0] show ?thesis by auto
next
  case (Some i)
  with assms(2) have "j = i" "v' = v" by (simp_all add: first_avail_idx_def)
  with scan_slots_Some [OF Some] show ?thesis by simp
qed

lemma first_avail_idx_full:
  assumes "\<forall>i<length v. is_assigned (v ! i)"
  shows "first_avail_idx v = (length v, v @ [Unassigned])"
proof (cases "scan_slots v 0")
  case None
  then show ?thesis by (simp add: first_avail_idx_def)
next
  case (Some i)
  with assms scan_slots_Some [OF Some] show ?thesis by auto
qed

lemma live_le_length: "live h \<le> length h"
  by (simp add: live_def)

lemma live_all_assigned:
  assumes "\<forall>i<length h. is_assigned (h ! i)"
  shows "live h = length h"
proof -
  from assms have "\<forall>s\<in>set h. is_assigned s"
    by (simp add: all_set_conv_all_nth)
  then show ?thesis
    by (simp add: live_def)
qed

lemma length_retain: "length (retain i h) = length h"
  by (simp add: retain_def split: simple_variant.splits prod.splits)

lemma length_release: "length (release i h) = length h"
  by (simp add: release_def split: simple_variant.splits prod.splits)

lemma alloc_cases:
  "(length (snd (alloc p h)) = length h)
   \<or> (length (snd (alloc p h)) = Suc (length h) \<and> live (snd (alloc p h)) = Suc (length h))"
proof (cases "\<exists>i<length h. \<not> is_assigned (h ! i)")
  case True
  obtain j v' where f: "first_avail_idx h = (j, v')" by (cases "first_avail_idx h")
  from first_avail_idx_free [OF True f] f show ?thesis by (simp add: alloc_def)
next
  case False
  then have full: "\<forall>i<length h. is_assigned (h ! i)" by simp
  have "snd (alloc p h) = h @ [Assigned (1, p)]"
    by (simp add: alloc_def first_avail_idx_full [OF full])
  moreover have "\<forall>i<length (h @ [Assigned (1, p)]). is_assigned ((h @ [Assigned (1, p)]) ! i)"
    using full by (auto simp: nth_append)
  ultimately show ?thesis using live_all_assigned [of "h @ [Assigned (1, p)]"] by simp
qed

lemma step_cases:
  "length (step x h) = length h
   \<or> (length (step x h) = Suc (length h) \<and> live (step x h) = Suc (length h))"
  by (cases x) (use alloc_cases [of _ h] in \<open>auto simp: length_retain length_release\<close>)

lemma live_le_high_water: "live h \<le> high_water xs h"
  by (cases xs) simp_all

lemma length_run: "length (run xs h) = max (length h) (high_water xs h)"
proof (induction xs arbitrary: h)
  case Nil
  then show ?case using live_le_length [of h] by simp
next
  case (Cons x xs)
  have "length (run (x # xs) h) = max (length (step x h)) (high_water xs (step x h))"
    using Cons.IH by simp
  also have "\<dots> = max (length h) (high_water xs (step x h))"
    using step_cases [of x h] live_le_high_water [of "step x h" xs] by auto
  also have "\<dots> = max (length h) (high_water (x # xs) h)"
    using live_le_length [of h] by simp
  finally show ?case .
qed

lemma counted_nth: "counted h \<Longrightarrow> i < length h \<Longrightarrow> is_assigned (h ! i) = (0 < ref_count (h ! i))"
  by (simp add: counted_def list_all_length)

lemma counted_Nil: "counted []"
  by (simp add: counted_def)

lemma counted_update:
  assumes "counted h" and "is_assigned s = (0 < ref_count s)"
  shows "counted (h[i := s])"
  unfolding counted_def list_all_length
proof (intro allI impI)
  fix n
  assume "n < length (h[i := s])"
  then have n: "n < length h" by simp
  show "is_assigned (h[i := s] ! n) = (0 < ref_count (h[i := s] ! n))"
  proof (cases "n = i")
    case True
    with n assms(2) show ?thesis by simp
  next
    case False
    with n assms(1) show ?thesis by (simp add: counted_def list_all_length)
  qed
qed

lemma counted_retain: "counted h \<Longrightarrow> counted (retain i h)"
  by (auto simp: retain_def ref_count_def intro!: counted_update split: simple_variant.splits prod.splits)

lemma counted_release: "counted h \<Longrightarrow> counted (release i h)"
  by (auto simp: release_def ref_count_def intro!: counted_update split: simple_variant.splits prod.splits)

lemma counted_alloc: "counted h \<Longrightarrow> counted (snd (alloc p h))"
proof -
  assume c: "counted h"
  obtain j v' where f: "first_avail_idx h = (j, v')" by (cases "first_avail_idx h")
  have "counted v'"
    using c f by (auto simp: first_avail_idx_def counted_def ref_count_def split: option.splits)
  then show ?thesis
    by (simp add: alloc_def f counted_update ref_count_def)
qed

lemma counted_run: "counted h \<Longrightarrow> counted (run xs h)"
proof (induction xs arbitrary: h)
  case Nil
  then show ?case by simp
next
  case (Cons x xs)
  from Cons.prems have "counted (step x h)"
    by (cases x) (simp_all add: counted_alloc counted_retain counted_release)
  with Cons.IH show ?case by simp
qed

lemma free_iff_zero:
  assumes "counted h"
  shows "(\<exists>i<length h. \<not> is_assigned (h ! i)) = (\<exists>i<length h. ref_count (h ! i) = 0)"
  using counted_nth [OF assms] by auto

lemma alloc_result:
  assumes c: "counted h" and al: "alloc p h = (a, h')"
  shows "(\<forall>k<a. k < length h \<longrightarrow> ref_count (h ! k) \<noteq> 0)
        \<and> (if \<exists>i<length h. ref_count (h ! i) = 0
           then a < length h \<and> ref_count (h ! a) = 0 \<and> length h' = length h
           else a = length h \<and> length h' = Suc (length h))
        \<and> ref_count (h' ! a) = 1"
proof -
  obtain j v' where f: "first_avail_idx h = (j, v')" by (cases "first_avail_idx h")
  with al have a: "a = j" and h': "h' = v'[j := Assigned (1, p)]"
    by (auto simp: alloc_def)
  show ?thesis
  proof (cases "\<exists>i<length h. \<not> is_assigned (h ! i)")
    case True
    from first_avail_idx_free [OF True f]
    have v: "v' = h" "j < length h" "\<not> is_assigned (h ! j)" "\<forall>k<j. is_assigned (h ! k)"
      by simp_all
    from v c have "ref_count (h ! j) = 0" "\<forall>k<j. ref_count (h ! k) \<noteq> 0"
      by (auto simp: counted_nth)
    moreover have "\<exists>i<length h. ref_count (h ! i) = 0"
      using True free_iff_zero [OF c] by simp
    ultimately show ?thesis
      using v a h' by (simp add: ref_count_def)
  next
    case False
    then have full: "\<forall>i<length h. is_assigned (h ! i)" by simp
    from first_avail_idx_full [OF full] f have v: "j = length h" "v' = h @ [Unassigned]"
      by simp_all
    have "\<not> (\<exists>i<length h. ref_count (h ! i) = 0)"
      using False free_iff_zero [OF c] by simp
    then show ?thesis
      using v a h' by (auto simp: ref_count_def)
  qed
qed

lemma alloc_after_release:
  assumes c: "counted h" and i: "i < length h" and one: "ref_count (h ! i) = 1"
    and al: "alloc p (release i h) = (b, h'')"
  shows "length h'' = length h \<and> b \<le> i \<and> ((\<forall>k<i. ref_count (h ! k) \<noteq> 0) \<longrightarrow> b = i)"
proof -
  from one obtain q where q: "h ! i = Assigned (1, q)"
    by (cases "h ! i") (auto simp: ref_count_def)
  with i have r: "release i h = h[i := Unassigned]"
    by (simp add: release_def)
  have free: "\<exists>k<length (release i h). \<not> is_assigned (release i h ! k)"
    using i r by auto
  obtain j v' where f: "first_avail_idx (release i h) = (j, v')"
    by (cases "first_avail_idx (release i h)")
  with al have b: "b = j" and h'': "h'' = v'[j := Assigned (1, p)]"
    by (auto simp: alloc_def)
  from first_avail_idx_free [OF free f]
  have v: "v' = release i h" "j < length h" "\<not> is_assigned (release i h ! j)"
      "\<forall>k<j. is_assigned (release i h ! k)"
    by (simp_all add: length_release)
  have le: "j \<le> i"
  proof (rule ccontr)
    assume "\<not> j \<le> i"
    then have "i < j" by simp
    with v(4) have "is_assigned (release i h ! i)" by simp
    with r i show False by simp
  qed
  have "j = i" if all: "\<forall>k<i. ref_count (h ! k) \<noteq> 0"
  proof (rule ccontr)
    assume "j \<noteq> i"
    with le have lt: "j < i" by simp
    with r have "release i h ! j = h ! j" by simp
    with v(3) have "\<not> is_assigned (h ! j)" by simp
    with c v(2) have "ref_count (h ! j) = 0" by (simp add: counted_nth)
    with all lt show False by auto
  qed
  with le v b h'' show ?thesis by (simp add: length_release)
qed

section \<open>Truthiness\<close>

text \<open>
  C10. \<open>falsey v\<close> is true exactly when \<open>v\<close> is nil or the boolean false; the integer 0,
  the float 0.0 and the empty string are truthy.
\<close>

theorem falsey_iff_nil_or_false:
  "falsey v = (v = VNil \<or> v = VBool False)
   \<and> \<not> falsey (VInteger 0)
   \<and> \<not> falsey (VNumber (Finite 0))
   \<and> \<not> falsey (VString [])"
  by (cases v) (simp_all add: falsey_def)

section \<open>Equality\<close>

text \<open>
  C6. \<open>operator==\<close> compares an integer with a float as two doubles, the integer converted
  (so the integer 1 equals the float 1.0, and the table keys 1 and 1.0 name one entry);
  two object references are equal exactly when they refer to the same slot, whatever the
  slots hold; and two values of different alternatives that are not both numeric are
  never equal.
\<close>

theorem eq_numeric_coercion_identity:
  "lua_eq (VInteger i) (VNumber n) = num_eq (int_to_number i) n
   \<and> lua_eq (VNumber n) (VInteger i) = num_eq n (int_to_number i)
   \<and> lua_eq (VInteger i) (VNumber (Finite x)) = (real_of_int (sint i) = x)
   \<and> lua_eq (VInteger 1) (VNumber (Finite 1))
   \<and> lua_eq (VNumber (Finite 1)) (VInteger 1)
   \<and> table_get (table_set t (VInteger 1) v) (VNumber (Finite 1)) = v
   \<and> table_get (table_set t (VNumber (Finite 1)) v) (VInteger 1) = v
   \<and> lua_eq (VObject p) (VObject q) = (p = q)
   \<and> (index a \<noteq> index b \<and> \<not> (is_numeric a \<and> is_numeric b) \<longrightarrow> \<not> lua_eq a b)"
proof -
  have coerce: "lua_eq (VInteger i) (VNumber n) = num_eq (int_to_number i) n"
    "lua_eq (VNumber n) (VInteger i) = num_eq n (int_to_number i)"
    by (simp_all add: lua_eq_def is_numeric_def numeric_operand_def)
  have fin: "lua_eq (VInteger i) (VNumber (Finite x)) = (real_of_int (sint i) = x)"
    by (simp add: lua_eq_def is_numeric_def numeric_operand_def int_to_number_def)
  have one: "lua_eq (VInteger 1) (VNumber (Finite 1))" "lua_eq (VNumber (Finite 1)) (VInteger 1)"
    by (simp_all add: lua_eq_def is_numeric_def numeric_operand_def int_to_number_def)
  have key1: "table_get (table_set t (VInteger 1) v) (VNumber (Finite 1)) = v"
    unfolding table_get_def table_set_def
    by (simp add: get_set_entries lua_eq_refl lua_eq_one)
  have key2: "table_get (table_set t (VNumber (Finite 1)) v) (VInteger 1) = v"
    unfolding table_get_def table_set_def
    by (simp add: get_set_entries lua_eq_refl lua_eq_one)
  have ident: "lua_eq (VObject p) (VObject q) = (p = q)"
    by (simp add: lua_eq_def)
  have differ: "index a \<noteq> index b \<and> \<not> (is_numeric a \<and> is_numeric b) \<longrightarrow> \<not> lua_eq a b"
    by (simp add: lua_eq_def)
  from coerce fin one key1 key2 ident differ show ?thesis
    by blast
qed

theorem eq_numeric_coercion_identity_witness:
  "lua_eq (VInteger 1) (VNumber (Finite 1))
   \<and> table_get (table_set \<lparr>entries = []\<rparr> (VInteger 1) (VBool True)) (VNumber (Finite 1)) = VBool True
   \<and> \<not> lua_eq (VObject 0) (VObject 1)
   \<and> index (VInteger 1) \<noteq> index (VString ''1'')
   \<and> \<not> (is_numeric (VInteger 1) \<and> is_numeric (VString ''1''))
   \<and> \<not> lua_eq (VInteger 1) (VString ''1'')"
  using eq_numeric_coercion_identity
    [of 1 "Finite 1" 1 "\<lparr>entries = []\<rparr>" "VBool True" 0 1 "VInteger 1" "VString ''1''"]
  by (simp add: is_numeric_def int_to_number_def)

section \<open>Ordering of strings\<close>




section \<open>Table lookup after update\<close>

text \<open>
  C5, as the code has it. For every key \<open>k\<close> that compares equal to itself, which is every
  key but the float NaN, \<open>get k\<close> after \<open>set k v\<close> returns \<open>v\<close>; \<open>set\<close> on a key some entry
  compares equal to leaves the sequence of keys as it was, \<open>set\<close> on an absent key appends
  the entry \<open>(k, v)\<close>; and \<open>get\<close> of an absent key returns nil.
\<close>

theorem table_get_after_set:
  "(k \<noteq> VNumber NaN \<longrightarrow> table_get (table_set t k v) k = v)
   \<and> (\<not> absent t k \<longrightarrow> map node_key (entries (table_set t k v)) = map node_key (entries t))
   \<and> (absent t k \<longrightarrow>
        entries (table_set t k v) = entries t @ [\<lparr>node_key = k, node_value = v\<rparr>])
   \<and> (absent t k \<longrightarrow> table_get t k = VNil)"
  by (simp add: table_get_def table_set_def absent_def get_set_entries lua_eq_refl
      get_entries_absent set_entries_absent set_entries_keys)

theorem table_get_after_set_witness:
  "VNumber (Finite (1 / 2)) \<noteq> VNumber NaN
   \<and> \<not> absent \<lparr>entries = [\<lparr>node_key = VString ''a'', node_value = VInteger 1\<rparr>]\<rparr> (VString ''a'')
   \<and> absent \<lparr>entries = [\<lparr>node_key = VString ''a'', node_value = VInteger 1\<rparr>]\<rparr> (VBool True)
   \<and> table_get (table_set \<lparr>entries = []\<rparr> (VNumber (Finite (1 / 2))) (VInteger 7))
        (VNumber (Finite (1 / 2))) = VInteger 7
   \<and> entries (table_set \<lparr>entries = [\<lparr>node_key = VString ''a'', node_value = VInteger 1\<rparr>]\<rparr>
        (VString ''a'') (VInteger 2)) = [\<lparr>node_key = VString ''a'', node_value = VInteger 2\<rparr>]
   \<and> entries (table_set \<lparr>entries = [\<lparr>node_key = VString ''a'', node_value = VInteger 1\<rparr>]\<rparr>
        (VBool True) (VInteger 2)) =
       [\<lparr>node_key = VString ''a'', node_value = VInteger 1\<rparr>,
        \<lparr>node_key = VBool True, node_value = VInteger 2\<rparr>]
   \<and> table_get \<lparr>entries = [\<lparr>node_key = VString ''a'', node_value = VInteger 1\<rparr>]\<rparr>
        (VBool True) = VNil"
  using table_get_after_set [of "VNumber (Finite (1 / 2))" "\<lparr>entries = []\<rparr>" "VInteger 7"]
    table_get_after_set [of "VString ''a''"
      "\<lparr>entries = [\<lparr>node_key = VString ''a'', node_value = VInteger 1\<rparr>]\<rparr>" "VInteger 2"]
    table_get_after_set [of "VBool True"
      "\<lparr>entries = [\<lparr>node_key = VString ''a'', node_value = VInteger 1\<rparr>]\<rparr>" "VInteger 2"]
  by (simp add: absent_def lua_eq_def is_numeric_def table_set_def table_get_def)

text \<open>
  The float NaN is a key of type float that is not found again: no key compares equal to
  NaN, so \<open>set\<close> appends an entry and \<open>get\<close> returns nil.
\<close>

theorem table_get_after_set_nan_counterexample:
  "table_get (table_set \<lparr>entries = []\<rparr> (VNumber NaN) (VInteger 7)) (VNumber NaN) \<noteq> VInteger 7"
  by (simp add: table_get_def table_set_def lua_eq_def is_numeric_def numeric_operand_def)

section \<open>Allocation\<close>

text \<open>
  C8. \<open>first_avail_idx\<close> returns the lowest index of an unassigned slot and leaves the
  vector as it is, and only when every slot is assigned appends one slot and returns its
  index. An allocation from a heap therefore claims the lowest-indexed slot whose
  reference count is zero and grows the heap by exactly one slot only when there is none;
  the allocation after the release of a slot's last reference does not grow the heap and
  returns that slot's index unless a lower slot is free; and after any history run from
  the empty heap, the heap has as many slots as were assigned at one time at most.
\<close>

theorem alloc_lowest_free_slot:
  "(first_avail_idx v = (j, v') \<longrightarrow>
      (if \<exists>i<length v. \<not> is_assigned (v ! i)
       then v' = v \<and> j < length v \<and> \<not> is_assigned (v ! j) \<and> (\<forall>k<j. is_assigned (v ! k))
       else j = length v \<and> v' = v @ [Unassigned]))
   \<and> (counted h \<and> alloc p h = (a, h') \<longrightarrow>
        (\<forall>k<a. k < length h \<longrightarrow> ref_count (h ! k) \<noteq> 0)
        \<and> (if \<exists>i<length h. ref_count (h ! i) = 0
           then a < length h \<and> ref_count (h ! a) = 0 \<and> length h' = length h
           else a = length h \<and> length h' = Suc (length h))
        \<and> ref_count (h' ! a) = 1)
   \<and> (counted h \<and> i < length h \<and> ref_count (h ! i) = 1 \<and> alloc p (release i h) = (b, h'') \<longrightarrow>
        length h'' = length h \<and> b \<le> i \<and> ((\<forall>k<i. ref_count (h ! k) \<noteq> 0) \<longrightarrow> b = i))
   \<and> counted (run ops []) \<and> length (run ops []) = high_water ops []"
proof -
  have A: "first_avail_idx v = (j, v') \<longrightarrow>
      (if \<exists>i<length v. \<not> is_assigned (v ! i)
       then v' = v \<and> j < length v \<and> \<not> is_assigned (v ! j) \<and> (\<forall>k<j. is_assigned (v ! k))
       else j = length v \<and> v' = v @ [Unassigned])"
  proof (cases "\<exists>i<length v. \<not> is_assigned (v ! i)")
    case True
    with first_avail_idx_free [OF True, of j v'] show ?thesis by simp
  next
    case False
    then have "\<forall>i<length v. is_assigned (v ! i)" by simp
    from first_avail_idx_full [OF this] False show ?thesis by auto
  qed
  have D: "counted (run ops []) \<and> length (run ops []) = high_water ops []"
    by (simp add: counted_run counted_Nil length_run)
  from A alloc_result [of h p a h'] alloc_after_release [of h i p b h''] D
  show ?thesis by blast
qed

theorem alloc_lowest_free_slot_witness:
  "first_avail_idx [Assigned (1::nat, ()), Unassigned, Assigned (2, ()), Unassigned]
     = (1, [Assigned (1, ()), Unassigned, Assigned (2, ()), Unassigned])
   \<and> first_avail_idx [Assigned (1::nat, ())] = (1, [Assigned (1, ()), Unassigned])
   \<and> counted [Assigned (2, ()), Assigned (1, ())]
   \<and> alloc () [Assigned (2, ()), Assigned (1, ())]
       = (2, [Assigned (2, ()), Assigned (1, ()), Assigned (1, ())])
   \<and> ref_count ([Assigned (2, ()), Assigned (1::nat, ())] ! 1) = 1
   \<and> alloc () (release 1 [Assigned (2, ()), Assigned (1, ())])
       = (1, [Assigned (2, ()), Assigned (1, ())])
   \<and> run [Alloc (), Alloc (), Release 0, Alloc (), Release 1] [] = [Assigned (1, ()), Unassigned]
   \<and> high_water [Alloc (), Alloc (), Release 0, Alloc (), Release 1] [] = 2"
  using alloc_lowest_free_slot
    [of "[Assigned (1::nat, ()), Unassigned, Assigned (2, ()), Unassigned]" 1
      "[Assigned (1::nat, ()), Unassigned, Assigned (2, ()), Unassigned]"
      "[Assigned (2, ()), Assigned (1, ())]" "()" 2
      "[Assigned (2, ()), Assigned (1, ()), Assigned (1, ())]" 1 1
      "[Assigned (2, ()), Assigned (1, ())]"
      "[Alloc (), Alloc (), Release 0, Alloc (), Release 1]"]
  by (simp add: first_avail_idx_def scan_slots.simps counted_def ref_count_def alloc_def
      release_def live_def)

end
